theory Spec2Isabelle
  imports Main "HOL-Library.Sublist"
begin

section \<open>Python text primitives used by server\_manager.py\<close>

text \<open>
  A Python \<open>str\<close> is modelled as a \<open>string\<close>, a list of 8-bit characters read as the
  code points below 256. Files are opened by the script in text mode with the default
  \<open>newline=None\<close>: reading translates the line ends CR LF and CR to LF, and writing
  translates every LF to the line separator of the platform, which is CR LF on Windows and
  LF on Linux and macOS.
\<close>

abbreviation LF :: char where
  "LF \<equiv> CHR 0x0A"

abbreviation CR :: char where
  "CR \<equiv> CHR 0x0D"

text \<open>\<open>str.isspace\<close> on the code points below 256: TAB, LF, VT, FF, CR, FS, GS, RS, US,
  SPACE, NEL and NBSP.\<close>

definition py_isspace :: "char \<Rightarrow> bool" where
  "py_isspace c \<longleftrightarrow>
     c \<in> {CHR 0x09, CHR 0x0A, CHR 0x0B, CHR 0x0C, CHR 0x0D,
          CHR 0x1C, CHR 0x1D, CHR 0x1E, CHR 0x1F, CHR 0x20, CHR 0x85, CHR 0xA0}"

text \<open>\<open>s.lstrip()\<close>, \<open>s.rstrip()\<close> and \<open>s.strip()\<close> without arguments.\<close>

definition py_lstrip :: "string \<Rightarrow> string" where
  "py_lstrip s = dropWhile py_isspace s"

definition py_rstrip :: "string \<Rightarrow> string" where
  "py_rstrip s = rev (dropWhile py_isspace (rev s))"

definition py_strip :: "string \<Rightarrow> string" where
  "py_strip s = py_rstrip (py_lstrip s)"

text \<open>\<open>s.startswith(p)\<close>.\<close>

definition py_startswith :: "string \<Rightarrow> string \<Rightarrow> bool" where
  "py_startswith s p \<longleftrightarrow> take (length p) s = p"

text \<open>\<open>e in s\<close> on strings: \<open>e\<close> occurs in \<open>s\<close> as a contiguous substring.\<close>

fun py_in :: "string \<Rightarrow> string \<Rightarrow> bool" where
  "py_in e [] \<longleftrightarrow> e = []"
| "py_in e (c # cs) \<longleftrightarrow> take (length e) (c # cs) = e \<or> py_in e cs"

text \<open>The text a file opened with \<open>open(path, "r")\<close> delivers for the stored characters:
  universal newlines, CR LF and a lone CR both become LF.\<close>

fun text_read :: "string \<Rightarrow> string" where
  "text_read [] = []"
| "text_read (c # cs) =
     (if c = CR then
        (case cs of
           [] \<Rightarrow> [LF]
         | d # ds \<Rightarrow> if d = LF then LF # text_read ds else LF # text_read cs)
      else c # text_read cs)"

text \<open>The characters a file opened with \<open>open(path, "a")\<close> or \<open>open(path, "w")\<close> stores
  for the text written, where \<open>windows\<close> says that \<open>os.linesep\<close> is CR LF: every LF
  becomes CR LF there, and the text is stored as it is elsewhere.\<close>

definition text_write :: "bool \<Rightarrow> string \<Rightarrow> string" where
  "text_write windows s =
     (if windows then concat (map (\<lambda>c. if c = LF then [CR, LF] else [c]) s) else s)"

text \<open>The lines a text file object yields (\<open>for line in f\<close>, \<open>f.readlines()\<close>): the text
  is cut after every LF, each line keeps its LF, and a last line without LF is yielded when
  it is not empty.\<close>

fun py_lines :: "string \<Rightarrow> string list" where
  "py_lines [] = []"
| "py_lines (c # cs) =
     (if c = LF then [LF] # py_lines cs
      else (case py_lines cs of
              [] \<Rightarrow> [[c]]
            | l # ls \<Rightarrow> (c # l) # ls))"

section \<open>The machine the script runs on\<close>

text \<open>\<open>platform.system().lower()\<close>: the three families the script knows, and any other.\<close>

datatype os_family = Windows | Linux | Darwin | OtherOS

text \<open>The path \<open>get_hosts_file_path\<close> returns: \<open>/etc/hosts\<close>, or the Windows hosts file
  under the directory given to \<open>os.path.join\<close>.\<close>

datatype hosts_path = EtcHosts | WindowsHosts string

text \<open>The signals \<open>stop_php_server\<close> passes to \<open>os.kill\<close>; \<open>SIG0\<close> is the signal
  number 0, which only probes the process.\<close>

datatype signal = SIGTERM | SIGKILL | SIG0

text \<open>What a call \<open>os.kill(pid, sig)\<close> does: it returns, or raises
  \<open>ProcessLookupError\<close>, another \<open>OSError\<close> (such as \<open>PermissionError\<close>), or an
  exception that is no \<open>OSError\<close> (such as \<open>OverflowError\<close> for a number that is no
  process id, or the \<open>AttributeError\<close> of \<open>signal.SIGKILL\<close> where the platform has no
  such signal).\<close>

datatype kill_result = KillOk | ProcessLookupError | OtherOSError | OtherException

text \<open>The answers of the operating system to the three \<open>os.kill\<close> calls of
  \<open>stop_php_server\<close>.\<close>

record kill_replies =
  on_sigterm :: kill_result
  on_probe :: kill_result
  on_sigkill :: kill_result

text \<open>One constructor for each \<open>print\<close> of the functions modelled, with the values the
  message shows.\<close>

datatype message =
    UnsupportedOS
  | HostsFileNotFound hosts_path
  | HostsReadError
  | EntryAlreadyExists string
  | EntryAdded string hosts_path
  | DnsFlushNote
  | DnsFlushAttempt
  | DnsFlushed
  | DnsFlushFailed
  | AddFailed
  | PrivilegeHint
  | EntryNotFoundNoRemoval string
  | EntryRemoved string hosts_path
  | EntryNotActive string
  | DnsFlushNoteShort
  | RemoveFailed
  | PidFileNotFound
  | PidReadError
  | Stopping int
  | SentSigterm int
  | SendingSigkill int
  | SentSigkill int
  | Terminated int
  | ProcessNotFound int
  | StopError int
  | StopManualHint int
  | PidFileRemoved
  | PidFileNotRemoved

text \<open>What the script does to its surroundings, in order: a printed message, a signal sent
  with \<open>os.kill\<close>, a \<open>time.sleep\<close> in seconds, a run of \<open>ipconfig /flushdns\<close>.\<close>

datatype event = Print message | Kill int signal | Sleep nat | FlushDns

text \<open>The state the functions read and change. \<open>hosts_file\<close> and \<open>pid_file\<close> hold the
  stored characters of the two files, \<open>None\<close> when the file does not exist.
  \<open>hosts_readable\<close> says whether opening and reading the hosts file succeeds,
  \<open>hosts_writable\<close> whether opening it for writing or appending does, \<open>pid_readable\<close>
  whether the PID file can be opened and read, \<open>pid_removable\<close> whether \<open>os.remove\<close> of it
  succeeds, \<open>flushdns_ok\<close> whether \<open>ipconfig /flushdns\<close> runs and exits with 0.
  \<open>int_max_str_digits\<close> is the interpreter's limit on the digits of a string that
  \<open>int\<close> converts (\<open>sys.get_int_max_str_digits()\<close>, 4300 unless configured), where 0
  stands for no limit.\<close>

record world =
  system :: os_family
  system_root :: "string option"
  hosts_file :: "string option"
  hosts_readable :: bool
  hosts_writable :: bool
  flushdns_ok :: bool
  pid_file :: "string option"
  pid_readable :: bool
  pid_removable :: bool
  int_max_str_digits :: nat
  trace :: "event list"

definition emit :: "event \<Rightarrow> world \<Rightarrow> world" where
  "emit e w = w\<lparr>trace := trace w @ [e]\<rparr>"

definition say :: "message \<Rightarrow> world \<Rightarrow> world" where
  "say m w = emit (Print m) w"

section \<open>The hosts file\<close>

definition get_hosts_file_path :: "world \<Rightarrow> hosts_path option \<times> world" where
  "get_hosts_file_path w =
     (if system w = Windows then
        (Some (WindowsHosts (case system_root w of None \<Rightarrow> ''C:'' @ [CHR 0x5C] @ ''Windows'' | Some d \<Rightarrow> d)), w)
      else if system w \<in> {Linux, Darwin} then (Some EtcHosts, w)
      else (None, say UnsupportedOS w))"

text \<open>The test both \<open>is_entry_in_hosts\<close> and \<open>remove_from_hosts\<close> make on a line:
  \<open>entry in line and not line.strip().startswith("#")\<close>.\<close>

definition line_matches :: "string \<Rightarrow> string \<Rightarrow> bool" where
  "line_matches entry line \<longleftrightarrow> py_in entry line \<and> \<not> py_startswith (py_strip line) ''#''"

text \<open>The loop of \<open>is_entry_in_hosts\<close>: it returns at the first line that matches.\<close>

fun scan_lines :: "string \<Rightarrow> string list \<Rightarrow> bool" where
  "scan_lines entry [] = False"
| "scan_lines entry (line # lines) =
     (if line_matches entry line then True else scan_lines entry lines)"

definition is_entry_in_hosts :: "string \<Rightarrow> world \<Rightarrow> bool \<times> world" where
  "is_entry_in_hosts entry_to_check w =
     (case get_hosts_file_path w of
        (None, w1) \<Rightarrow> (False, w1)
      | (Some hosts_path, w1) \<Rightarrow>
          (case hosts_file w1 of
             None \<Rightarrow> (False, say (HostsFileNotFound hosts_path) w1)
           | Some stored \<Rightarrow>
               if \<not> hosts_readable w1 then (False, say HostsReadError w1)
               else (scan_lines entry_to_check (py_lines (text_read stored)), w1)))"

text \<open>The messages about the DNS cache after a change of the hosts file; on Windows the
  cache is flushed with \<open>ipconfig /flushdns\<close>, and a failure of that is only reported.\<close>

definition flush_dns :: "message \<Rightarrow> world \<Rightarrow> world" where
  "flush_dns note w =
     (if system w \<in> {Linux, Darwin} then say note w
      else if system w = Windows then
        (let w1 = emit FlushDns (say DnsFlushAttempt w)
         in if flushdns_ok w1 then say DnsFlushed w1 else say DnsFlushFailed w1)
      else w)"

text \<open>Appending with \<open>open(path, "a")\<close> creates the file when it does not exist.\<close>

definition stored_text :: "world \<Rightarrow> string" where
  "stored_text w = (case hosts_file w of None \<Rightarrow> [] | Some stored \<Rightarrow> stored)"

definition add_to_hosts :: "string \<Rightarrow> world \<Rightarrow> bool \<times> world" where
  "add_to_hosts entry_to_add w =
     (case get_hosts_file_path w of
        (None, w1) \<Rightarrow> (False, w1)
      | (Some hosts_path, w1) \<Rightarrow>
          (let (present, w2) = is_entry_in_hosts entry_to_add w1 in
           if present then (True, say (EntryAlreadyExists entry_to_add) w2)
           else if \<not> hosts_writable w2 then (False, say PrivilegeHint (say AddFailed w2))
           else
             (let w3 = w2\<lparr>hosts_file := Some (stored_text w2 @
                          text_write (system w2 = Windows) ([LF] @ entry_to_add @ [LF]))\<rparr>;
                  w4 = say (EntryAdded entry_to_add hosts_path) w3
              in (True, flush_dns DnsFlushNote w4))))"

text \<open>The loop of \<open>remove_from_hosts\<close> over the lines read: a line that matches sets the
  flag and is skipped, every other line is written.\<close>

fun remove_loop :: "string \<Rightarrow> string list \<Rightarrow> bool \<times> string \<Rightarrow> bool \<times> string" where
  "remove_loop entry [] acc = acc"
| "remove_loop entry (line # lines) (found, written) =
     (if line_matches entry line then remove_loop entry lines (True, written)
      else remove_loop entry lines (found, written @ line))"

definition remove_failed :: "world \<Rightarrow> bool \<times> world" where
  "remove_failed w = (False, say PrivilegeHint (say RemoveFailed w))"

definition remove_from_hosts :: "string \<Rightarrow> world \<Rightarrow> bool \<times> world" where
  "remove_from_hosts entry_to_remove w =
     (case get_hosts_file_path w of
        (None, w1) \<Rightarrow> (False, w1)
      | (Some hosts_path, w1) \<Rightarrow>
          (let (present, w2) = is_entry_in_hosts entry_to_remove w1 in
           if \<not> present then (True, say (EntryNotFoundNoRemoval entry_to_remove) w2)
           else
             (case hosts_file w2 of
                None \<Rightarrow> remove_failed w2
              | Some stored \<Rightarrow>
                  if \<not> hosts_readable w2 then remove_failed w2
                  else if \<not> hosts_writable w2 then remove_failed w2
                  else
                    (let lines = py_lines (text_read stored);
                         (entry_found_and_removed, written) =
                            remove_loop entry_to_remove lines (False, []);
                         w3 = w2\<lparr>hosts_file := Some (text_write (system w2 = Windows) written)\<rparr>;
                         w4 = (if entry_found_and_removed
                               then say (EntryRemoved entry_to_remove hosts_path) w3
                               else say (EntryNotActive entry_to_remove) w3)
                     in (True, flush_dns DnsFlushNoteShort w4)))))"

section \<open>Stopping the server\<close>

text \<open>\<open>int(s)\<close> on a string, base 10: surrounding whitespace is ignored, then an optional
  sign, then decimal digits, where single underscores may stand between digits. Anything
  else is a \<open>ValueError\<close>, here \<open>None\<close>; so is a string with more digits than the limit
  \<open>max_digits\<close> of the interpreter, when that is not 0 (the sign, the underscores and the
  whitespace do not count).\<close>

definition is_digit :: "char \<Rightarrow> bool" where
  "is_digit c \<longleftrightarrow> (48::nat) \<le> of_char c \<and> (of_char c :: nat) \<le> 57"

definition digit_val :: "char \<Rightarrow> nat" where
  "digit_val c = of_char c - 48"

fun py_digits_from :: "nat \<Rightarrow> string \<Rightarrow> nat option" where
  "py_digits_from acc [] = Some acc"
| "py_digits_from acc [c] =
     (if is_digit c then Some (10 * acc + digit_val c) else None)"
| "py_digits_from acc (c # d # cs) =
     (if is_digit c then py_digits_from (10 * acc + digit_val c) (d # cs)
      else if c = CHR ''_'' \<and> is_digit d then py_digits_from (10 * acc + digit_val d) cs
      else None)"

definition py_digits :: "string \<Rightarrow> nat option" where
  "py_digits s =
     (case s of
        [] \<Rightarrow> None
      | c # cs \<Rightarrow> if is_digit c then py_digits_from (digit_val c) cs else None)"

definition py_signed :: "string \<Rightarrow> int option" where
  "py_signed s =
     (case s of
        [] \<Rightarrow> None
      | c # cs \<Rightarrow>
          if c = CHR ''-'' then map_option (\<lambda>n. - int n) (py_digits cs)
          else if c = CHR ''+'' then map_option int (py_digits cs)
          else map_option int (py_digits (c # cs)))"

definition py_int :: "nat \<Rightarrow> string \<Rightarrow> int option" where
  "py_int max_digits s =
     (if 0 < max_digits \<and> max_digits < length (filter is_digit (py_strip s)) then None
      else py_signed (py_strip s))"

text \<open>The body of the outer \<open>try\<close> of \<open>stop_php_server\<close> with its handlers; the result
  is the flag \<open>success\<close>.\<close>

definition stop_failed :: "int \<Rightarrow> world \<Rightarrow> bool \<times> world" where
  "stop_failed pid w = (False, say (StopManualHint pid) (say (StopError pid) w))"

definition terminate :: "kill_replies \<Rightarrow> int \<Rightarrow> world \<Rightarrow> bool \<times> world" where
  "terminate os pid w =
     (let w1 = emit (Kill pid SIGTERM) w in
      case on_sigterm os of
        ProcessLookupError \<Rightarrow> (True, say (ProcessNotFound pid) w1)
      | OtherOSError \<Rightarrow> stop_failed pid w1
      | OtherException \<Rightarrow> stop_failed pid w1
      | KillOk \<Rightarrow>
          (let w2 = emit (Sleep 2) (say (SentSigterm pid) w1);
               w3 = emit (Kill pid SIG0) w2
           in case on_probe os of
                ProcessLookupError \<Rightarrow> (True, say (Terminated pid) w3)
              | OtherOSError \<Rightarrow> (True, say (Terminated pid) w3)
              | OtherException \<Rightarrow> stop_failed pid w3
              | KillOk \<Rightarrow>
                  (let w4 = emit (Kill pid SIGKILL) (say (SendingSigkill pid) w3)
                   in case on_sigkill os of
                        KillOk \<Rightarrow> (True, say (SentSigkill pid) w4)
                      | ProcessLookupError \<Rightarrow> (True, say (Terminated pid) w4)
                      | OtherOSError \<Rightarrow> (True, say (Terminated pid) w4)
                      | OtherException \<Rightarrow> stop_failed pid w4)))"

definition remove_pid_file :: "world \<Rightarrow> world" where
  "remove_pid_file w =
     (if pid_removable w then say PidFileRemoved (w\<lparr>pid_file := None\<rparr>)
      else say PidFileNotRemoved w)"

definition stop_php_server :: "kill_replies \<Rightarrow> world \<Rightarrow> bool \<times> world" where
  "stop_php_server os w =
     (case pid_file w of
        None \<Rightarrow> (False, say PidFileNotFound w)
      | Some stored \<Rightarrow>
          if \<not> pid_readable w then (False, say PidReadError w)
          else
            (case py_int (int_max_str_digits w) (py_strip (text_read stored)) of
               None \<Rightarrow> (False, say PidReadError w)
             | Some pid \<Rightarrow>
                 (let (success, w1) = terminate os pid (say (Stopping pid) w)
                  in if success then (True, remove_pid_file w1) else (False, w1))))"

text \<open>The signals and sleeps of a trace, without the messages.\<close>

fun is_action :: "event \<Rightarrow> bool" where
  "is_action (Print m) = False"
| "is_action e = True"

definition actions :: "world \<Rightarrow> event list" where
  "actions w = filter is_action (trace w)"

text \<open>The signals and sleeps one call of \<open>stop_php_server\<close> adds to the trace.\<close>

definition stop_actions :: "kill_replies \<Rightarrow> world \<Rightarrow> event list" where
  "stop_actions os w = drop (length (actions w)) (actions (snd (stop_php_server os w)))"

fun is_sigkill :: "event \<Rightarrow> bool" where
  "is_sigkill (Kill pid SIGKILL) = True"
| "is_sigkill e = False"

text \<open>The number a string of decimal digits writes, and the same with a sign before it.\<close>

definition dec_value :: "string \<Rightarrow> nat" where
  "dec_value ds = foldl (\<lambda>acc c. 10 * acc + digit_val c) 0 ds"

definition signed_value :: "string \<Rightarrow> string \<Rightarrow> int" where
  "signed_value sign ds = (if sign = ''-'' then - int (dec_value ds) else int (dec_value ds))"

section \<open>Notions of the specification\<close>

text \<open>An active line for an entry, in the words of the spec: the line contains the entry
  as a substring and does not start with \<open>#\<close> once its leading whitespace is trimmed.\<close>

definition active_line :: "string \<Rightarrow> string \<Rightarrow> bool" where
  "active_line entry line \<longleftrightarrow>
     sublist entry line \<and> \<not> py_startswith (py_lstrip line) ''#''"

text \<open>\<open>s.split()\<close>: the whitespace-separated fields of a string. The spec's "lines that
  structurally match the target entry" is read as: the line has the fields of the entry,
  the same address and the same hostname.\<close>

fun py_split :: "string \<Rightarrow> string list" where
  "py_split [] = []"
| "py_split (c # cs) =
     (if py_isspace c then py_split cs
      else (case cs of
              [] \<Rightarrow> [[c]]
            | d # ds \<Rightarrow>
                if py_isspace d then [c] # py_split cs
                else (case py_split cs of
                        [] \<Rightarrow> [[c]]
                      | f # fs \<Rightarrow> (c # f) # fs)))"

definition spec_structural_match :: "string \<Rightarrow> string \<Rightarrow> bool" where
  "spec_structural_match entry line \<longleftrightarrow> py_split line = py_split entry"

section \<open>Example surroundings\<close>

text \<open>A Linux machine where every file operation succeeds and \<open>int\<close> has its default
  limit of 4300 digits, with the given stored hosts file and PID file and nothing printed
  yet.\<close>

definition example_world :: "string option \<Rightarrow> string option \<Rightarrow> world" where
  "example_world hosts pid =
     \<lparr>system = Linux, system_root = None, hosts_file = hosts, hosts_readable = True,
      hosts_writable = True, flushdns_ok = True, pid_file = pid, pid_readable = True,
      pid_removable = True, int_max_str_digits = 4300, trace = []\<rparr>"

text \<open>Answers of the operating system: a process that survives \<open>SIGTERM\<close> and is
  killed, and a process that is gone when it is probed.\<close>

definition escalating_replies :: kill_replies where
  "escalating_replies = \<lparr>on_sigterm = KillOk, on_probe = KillOk, on_sigkill = KillOk\<rparr>"

definition graceful_replies :: kill_replies where
  "graceful_replies = \<lparr>on_sigterm = KillOk, on_probe = ProcessLookupError, on_sigkill = KillOk\<rparr>"

text \<open>The hosts file of the scenario in the spec: one entry of another host and the
  managed entry commented out.\<close>

definition scenario_hosts :: string where
  "scenario_hosts = ''1.2.3.4 other.host'' @ [LF] @ ''# 127.0.0.1 albert.apple.com'' @ [LF]"

text \<open>A hosts file with a commented line, a line that contains \<open>e\<close> and another line.\<close>

definition three_line_hosts :: string where
  "three_line_hosts = ''# e'' @ [LF] @ ''x e y'' @ [LF] @ ''z'' @ [LF]"

section \<open>Facts about the text primitives\<close>

lemma py_in_sublist: "py_in e s \<longleftrightarrow> sublist e s"
proof (induction s)
  case Nil
  show ?case by simp
next
  case (Cons c cs)
  have "take (length e) (c # cs) = e \<longleftrightarrow> prefix e (c # cs)"
    by (metis append_eq_conv_conj prefix_def)
  with Cons show ?case
    by (simp add: sublist_Cons_right)
qed

lemma py_in_iff: "py_in e s \<longleftrightarrow> (\<exists>before after. s = before @ e @ after)"
  by (simp add: py_in_sublist sublist_def)

lemma dropWhile_snoc_keep: "\<not> P c \<Longrightarrow> dropWhile P (xs @ [c]) = dropWhile P xs @ [c]"
  by (induction xs) auto

lemma py_rstrip_Cons: "\<not> py_isspace c \<Longrightarrow> py_rstrip (c # cs) = c # py_rstrip cs"
  by (simp add: py_rstrip_def dropWhile_snoc_keep)

lemma py_rstrip_Nil: "py_rstrip [] = []"
  by (simp add: py_rstrip_def)

text \<open>Whether a line is a comment is decided by its leading whitespace alone: \<open>#\<close> is no
  whitespace, so stripping the right end never uncovers or removes it.\<close>

lemma hash_after_strip:
  "py_startswith (py_strip line) ''#'' \<longleftrightarrow> py_startswith (py_lstrip line) ''#''"
proof (cases "py_lstrip line")
  case Nil
  then show ?thesis by (simp add: py_strip_def py_rstrip_Nil)
next
  case (Cons c cs)
  then have "\<not> py_isspace c"
    unfolding py_lstrip_def by (metis hd_dropWhile list.sel(1) list.distinct(1))
  with Cons show ?thesis
    by (simp add: py_strip_def py_rstrip_Cons py_startswith_def)
qed

lemma concat_py_lines: "concat (py_lines s) = s"
  by (induction s) (auto split: list.splits)

lemma text_read_no_CR: "CR \<notin> set x \<Longrightarrow> text_read (x @ t) = x @ text_read t"
  by (induction x) auto

lemma text_read_append:
  "b = [] \<or> hd b \<noteq> LF \<Longrightarrow> text_read (a @ b) = text_read a @ text_read b"
proof (induction a rule: text_read.induct)
  case 1
  show ?case by simp
next
  case (2 c cs)
  show ?case
  proof (cases "c = CR")
    case False
    with 2 show ?thesis by simp
  next
    case True
    show ?thesis
    proof (cases cs)
      case Nil
      with True 2(4) show ?thesis
        by (cases b) auto
    next
      case (Cons d ds)
      with True 2 show ?thesis
        by (cases "d = LF") auto
    qed
  qed
qed

lemma set_text_read: "set (text_read t) \<subseteq> insert LF (set t)"
proof (induction t rule: text_read.induct)
  case 1
  show ?case by simp
next
  case (2 c cs)
  show ?case
  proof (cases "c = CR")
    case False
    with 2 show ?thesis by auto
  next
    case True
    show ?thesis
    proof (cases cs)
      case Nil
      with True show ?thesis by simp
    next
      case (Cons d ds)
      show ?thesis
      proof (cases "d = LF")
        case True
        with \<open>c = CR\<close> Cons 2(1) show ?thesis by auto
      next
        case False
        with \<open>c = CR\<close> Cons 2(2) show ?thesis by auto
      qed
    qed
  qed
qed

lemma py_isspace_text_read:
  assumes "\<forall>c \<in> set t. py_isspace c"
  shows "\<forall>c \<in> set (text_read t). py_isspace c"
proof
  fix c assume "c \<in> set (text_read t)"
  with set_text_read have "c = LF \<or> c \<in> set t" by blast
  moreover have "py_isspace LF" by (simp add: py_isspace_def)
  ultimately show "py_isspace c" using assms by blast
qed

lemma is_digit_not_space: "is_digit c \<Longrightarrow> \<not> py_isspace c"
  by (auto simp: is_digit_def py_isspace_def)

lemma is_digit_not_CR: "is_digit c \<Longrightarrow> c \<noteq> CR"
  by (auto simp: is_digit_def)

lemma is_digit_not_LF: "is_digit c \<Longrightarrow> c \<noteq> LF"
  by (auto simp: is_digit_def)

lemma is_digit_not_sign: "is_digit c \<Longrightarrow> c \<noteq> CHR ''-'' \<and> c \<noteq> CHR ''+''"
  by (auto simp: is_digit_def)

lemma sign_char_plain:
  assumes "c = CHR ''+'' \<or> c = CHR ''-''"
  shows "\<not> py_isspace c" and "c \<noteq> CR" and "c \<noteq> LF"
  using assms by (auto simp: py_isspace_def)

lemma digit_char_plain:
  assumes "is_digit c"
  shows "\<not> py_isspace c" and "c \<noteq> CR" and "c \<noteq> LF"
  using assms is_digit_not_space is_digit_not_CR is_digit_not_LF by blast+

lemma py_strip_padded:
  assumes "\<forall>c \<in> set lead. py_isspace c" and "\<forall>c \<in> set trail. py_isspace c"
    and "body \<noteq> []" and "\<not> py_isspace (hd body)" and "\<not> py_isspace (last body)"
  shows "py_strip (lead @ body @ trail) = body"
proof -
  have "dropWhile py_isspace (lead @ body @ trail) = dropWhile py_isspace (body @ trail)"
    using assms(1) by (intro dropWhile_append2) simp
  then have "py_lstrip (lead @ body @ trail) = body @ trail"
    using assms(3,4) by (cases body) (simp_all add: py_lstrip_def)
  moreover have "py_rstrip (body @ trail) = body"
  proof -
    have "\<And>c. c \<in> set (rev trail) \<Longrightarrow> py_isspace c"
      using assms(2) by simp
    then have "dropWhile py_isspace (rev trail @ rev body) = dropWhile py_isspace (rev body)"
      by (rule dropWhile_append2)
    moreover have "dropWhile py_isspace (rev body) = rev body"
      using assms(3,5) by (cases "rev body") (auto simp: last_rev [symmetric] simp del: last_rev)
    ultimately show ?thesis by (simp add: py_rstrip_def)
  qed
  ultimately show ?thesis by (simp add: py_strip_def)
qed

lemma py_digits_from_all:
  "\<forall>c \<in> set ds. is_digit c \<Longrightarrow>
     py_digits_from acc ds = Some (foldl (\<lambda>a c. 10 * a + digit_val c) acc ds)"
  by (induction acc ds rule: py_digits_from.induct) auto

lemma py_digits_all:
  "ds \<noteq> [] \<Longrightarrow> \<forall>c \<in> set ds. is_digit c \<Longrightarrow> py_digits ds = Some (dec_value ds)"
  by (cases ds) (simp_all add: py_digits_def dec_value_def py_digits_from_all)

lemma py_signed_digits:
  assumes "sign \<in> {[], ''+'', ''-''}" and "ds \<noteq> []" and "\<forall>c \<in> set ds. is_digit c"
  shows "py_signed (sign @ ds) = Some (signed_value sign ds)"
proof -
  from assms(2,3) have d: "py_digits ds = Some (dec_value ds)"
    by (rule py_digits_all)
  from assms(2,3) obtain c cs where ds: "ds = c # cs" and c: "is_digit c"
    by (cases ds) auto
  from assms(1) consider "sign = []" | "sign = ''+''" | "sign = ''-''" by auto
  then show ?thesis
  proof cases
    case 1
    with ds c is_digit_not_sign [OF c] d show ?thesis
      by (simp add: py_signed_def signed_value_def)
  next
    case 2
    with d show ?thesis
      by (simp add: py_signed_def signed_value_def)
  next
    case 3
    with d show ?thesis
      by (simp add: py_signed_def signed_value_def)
  qed
qed

lemma digits_of_signed:
  assumes "sign \<in> {[], ''+'', ''-''}" and "\<forall>c \<in> set ds. is_digit c"
  shows "filter is_digit (sign @ ds) = ds"
proof -
  have "\<not> is_digit CHR ''+''" and "\<not> is_digit CHR ''-''"
    by (simp_all add: is_digit_def)
  with assms(1) have "filter is_digit sign = []"
    by auto
  moreover from assms(2) have "filter is_digit ds = ds"
    by (simp add: filter_id_conv)
  ultimately show ?thesis by simp
qed

lemma py_int_padded:
  assumes "\<forall>c \<in> set lead. py_isspace c" and "\<forall>c \<in> set trail. py_isspace c"
    and "sign \<in> {[], ''+'', ''-''}" and "ds \<noteq> []" and "\<forall>c \<in> set ds. is_digit c"
    and "max_digits = 0 \<or> length ds \<le> max_digits"
  shows "py_int max_digits (py_strip (text_read (lead @ sign @ ds @ trail))) =
           Some (signed_value sign ds)"
proof -
  let ?body = "sign @ ds"
  have sign: "\<forall>c \<in> set sign. c = CHR ''+'' \<or> c = CHR ''-''"
    using assms(3) by auto
  have plain: "\<not> py_isspace c \<and> c \<noteq> CR \<and> c \<noteq> LF" if "c \<in> set ?body" for c
  proof -
    from that have "c \<in> set sign \<or> c \<in> set ds" by simp
    then show ?thesis
    proof
      assume "c \<in> set sign"
      with sign have "c = CHR ''+'' \<or> c = CHR ''-''" by blast
      then show ?thesis using sign_char_plain by blast
    next
      assume "c \<in> set ds"
      with assms(5) have "is_digit c" by blast
      then show ?thesis using digit_char_plain by blast
    qed
  qed
  have body: "?body \<noteq> []"
    using assms(4) by simp
  then have hd_in: "hd ?body \<in> set ?body" and last_in: "last ?body \<in> set ?body"
    by (rule hd_in_set, rule last_in_set)
  have nocr: "CR \<notin> set ?body"
    using plain by blast
  have hd_body: "hd ?body \<noteq> LF"
    using plain [OF hd_in] by blast
  have "hd (?body @ trail) = hd ?body"
    using body by (rule hd_append2)
  with hd_body have "?body @ trail = [] \<or> hd (?body @ trail) \<noteq> LF"
    by simp
  then have "text_read (lead @ ?body @ trail) = text_read lead @ text_read (?body @ trail)"
    by (rule text_read_append)
  also have "\<dots> = text_read lead @ ?body @ text_read trail"
    using text_read_no_CR [OF nocr, of trail] by simp
  finally have tr: "text_read (lead @ sign @ ds @ trail) = text_read lead @ ?body @ text_read trail"
    by simp
  have h: "\<not> py_isspace (hd ?body)"
    using plain [OF hd_in] by blast
  have l: "\<not> py_isspace (last ?body)"
    using plain [OF last_in] by blast
  have strip: "py_strip (text_read (lead @ sign @ ds @ trail)) = ?body"
    unfolding tr
    by (rule py_strip_padded [OF py_isspace_text_read [OF assms(1)]
          py_isspace_text_read [OF assms(2)] body h l])
  have "py_strip ([] @ ?body @ []) = ?body"
    by (rule py_strip_padded [OF _ _ body h l]) simp_all
  then have again: "py_strip ?body = ?body"
    by simp
  have digits: "filter is_digit ?body = ds"
    by (rule digits_of_signed [OF assms(3,5)])
  have "py_int max_digits ?body = py_signed ?body"
    unfolding py_int_def again digits using assms(6) by auto
  with strip show ?thesis
    using py_signed_digits [OF assms(3,4,5)] by simp
qed

lemma py_lines_Nil_iff: "py_lines s = [] \<longleftrightarrow> s = []"
  by (cases s) (auto split: list.splits)

lemma py_lines_append_LF: "py_lines (a @ LF # b) = py_lines (a @ [LF]) @ py_lines b"
proof (induction a)
  case Nil
  show ?case by simp
next
  case (Cons c a)
  show ?case
  proof (cases "c = LF")
    case True
    with Cons show ?thesis by simp
  next
    case False
    obtain l ls where l: "py_lines (a @ [LF]) = l # ls"
      using py_lines_Nil_iff [of "a @ [LF]"] by (cases "py_lines (a @ [LF])") auto
    with False Cons show ?thesis by simp
  qed
qed

lemma py_lines_single: "LF \<notin> set s \<Longrightarrow> py_lines (s @ [LF]) = [s @ [LF]]"
  by (induction s) auto

lemma py_lines_snoc_LF:
  "t \<noteq> [] \<Longrightarrow> last t \<noteq> LF \<Longrightarrow>
     py_lines (t @ [LF]) = butlast (py_lines t) @ [last (py_lines t) @ [LF]]"
proof (induction t)
  case Nil
  then show ?case by simp
next
  case (Cons c t)
  show ?case
  proof (cases "t = []")
    case True
    with Cons.prems show ?thesis by simp
  next
    case False
    with Cons have IH: "py_lines (t @ [LF]) = butlast (py_lines t) @ [last (py_lines t) @ [LF]]"
      by simp
    obtain l ls where l: "py_lines t = l # ls"
      using False py_lines_Nil_iff [of t] by (cases "py_lines t") auto
    show ?thesis
    proof (cases "c = LF")
      case True
      with IH l show ?thesis by simp
    next
      case False
      with IH l show ?thesis by (cases ls) auto
    qed
  qed
qed

lemma text_read_append_LF: "text_read (a @ LF # b) = text_read (a @ [LF]) @ text_read b"
proof (induction a rule: text_read.induct)
  case 1
  show ?case by simp
next
  case (2 c cs)
  show ?case
  proof (cases "c = CR")
    case False
    with 2 show ?thesis by simp
  next
    case True
    show ?thesis
    proof (cases cs)
      case Nil
      with True show ?thesis by simp
    next
      case (Cons d ds)
      show ?thesis
      proof (cases "d = LF")
        case True
        with \<open>c = CR\<close> Cons 2(1) show ?thesis by simp
      next
        case False
        with \<open>c = CR\<close> Cons 2(2) show ?thesis by simp
      qed
    qed
  qed
qed

lemma text_read_snoc_LF:
  "a = [] \<or> last a \<noteq> CR \<Longrightarrow> text_read (a @ [LF]) = text_read a @ [LF]"
proof (induction a rule: text_read.induct)
  case 1
  show ?case by simp
next
  case (2 c cs)
  show ?case
  proof (cases "c = CR")
    case False
    with 2 show ?thesis by (cases cs) auto
  next
    case True
    show ?thesis
    proof (cases cs)
      case Nil
      with True 2(4) show ?thesis by simp
    next
      case (Cons d ds)
      show ?thesis
      proof (cases "d = LF")
        case True
        with \<open>c = CR\<close> Cons 2(1,4) show ?thesis by (cases ds) auto
      next
        case False
        with \<open>c = CR\<close> Cons 2(2,4) show ?thesis by auto
      qed
    qed
  qed
qed

lemma last_text_read:
  "s \<noteq> [] \<Longrightarrow> last s \<noteq> CR \<Longrightarrow> last (text_read s) = last s \<and> text_read s \<noteq> []"
proof (induction s rule: text_read.induct)
  case 1
  then show ?case by simp
next
  case (2 c cs)
  show ?case
  proof (cases "c = CR")
    case False
    with 2 show ?thesis by (cases cs) auto
  next
    case True
    show ?thesis
    proof (cases cs)
      case Nil
      with True 2(5) show ?thesis by simp
    next
      case (Cons d ds)
      show ?thesis
      proof (cases "d = LF")
        case True
        with \<open>c = CR\<close> Cons 2(1,5) show ?thesis by (cases ds) auto
      next
        case False
        with \<open>c = CR\<close> Cons 2(2,5) show ?thesis by auto
      qed
    qed
  qed
qed

text \<open>Writing and reading back: the text layer returns what was written when it had no
  CR, on either kind of platform.\<close>

lemma text_write_append: "text_write win (a @ b) = text_write win a @ text_write win b"
  by (simp add: text_write_def)

lemma text_write_plain: "LF \<notin> set s \<Longrightarrow> text_write win s = s"
proof -
  assume "LF \<notin> set s"
  then have "concat (map (\<lambda>c. if c = LF then [CR, LF] else [c]) s) = s"
    by (induction s) auto
  then show ?thesis by (simp add: text_write_def)
qed

lemma text_write_LF: "text_write win [LF] = (if win then [CR, LF] else [LF])"
  by (simp add: text_write_def)

lemma text_read_CRLF: "text_read (a @ CR # LF # b) = text_read a @ LF # text_read b"
proof -
  have "CR # LF # b = [] \<or> hd (CR # LF # b) \<noteq> LF"
    by simp
  then have "text_read (a @ CR # LF # b) = text_read a @ text_read (CR # LF # b)"
    by (rule text_read_append)
  then show ?thesis by simp
qed

lemma text_read_write: "CR \<notin> set t \<Longrightarrow> text_read (text_write win t) = t"
proof (cases win)
  case False
  assume "CR \<notin> set t"
  with False show ?thesis
    using text_read_no_CR [of t "[]"] by (simp add: text_write_def)
next
  case True
  assume "CR \<notin> set t"
  then have "text_read (concat (map (\<lambda>c. if c = LF then [CR, LF] else [c]) t)) = t"
    by (induction t) auto
  with True show ?thesis by (simp add: text_write_def)
qed

lemma text_read_ends_CR: "text_read (s @ [CR]) = text_read s @ [LF]"
proof -
  have "[CR] = [] \<or> hd [CR] \<noteq> LF" by simp
  then have "text_read (s @ [CR]) = text_read s @ text_read [CR]"
    by (rule text_read_append)
  then show ?thesis by simp
qed

text \<open>The text read after a newline was written behind the stored characters: the newline
  ends the text, except that on a platform that writes LF it falls together with a CR the
  stored characters end with.\<close>

lemma text_read_closed:
  "text_read (stored @ text_write win [LF]) =
     (if stored \<noteq> [] \<and> last stored = CR \<and> \<not> win then text_read stored
      else text_read stored @ [LF])"
proof (cases win)
  case True
  then show ?thesis
    using text_read_CRLF [of stored "[]"] by (simp add: text_write_LF)
next
  case False
  show ?thesis
  proof (cases "stored \<noteq> [] \<and> last stored = CR")
    case True
    then obtain s where s: "stored = s @ [CR]"
      by (metis append_butlast_last_id)
    have "text_read (s @ CR # LF # []) = text_read s @ [LF]"
      using text_read_CRLF [of s "[]"] by simp
    with s \<open>\<not> win\<close> True show ?thesis
      by (simp add: text_write_LF text_read_ends_CR)
  next
    case False
    then have "stored = [] \<or> last stored \<noteq> CR" by blast
    then have "text_read (stored @ [LF]) = text_read stored @ [LF]"
      by (rule text_read_snoc_LF)
    with False \<open>\<not> win\<close> show ?thesis
      by (auto simp: text_write_LF)
  qed
qed

lemma text_read_closed_ends_LF: "\<exists>u. text_read (stored @ text_write win [LF]) = u @ [LF]"
proof (cases "stored \<noteq> [] \<and> last stored = CR \<and> \<not> win")
  case True
  then have same: "text_read (stored @ text_write win [LF]) = text_read stored"
    using text_read_closed [of stored win] by simp
  from True obtain s where "stored = s @ [CR]"
    by (metis append_butlast_last_id)
  then have "text_read stored = text_read s @ [LF]"
    by (simp add: text_read_ends_CR)
  with same show ?thesis by simp
next
  case False
  then have "text_read (stored @ text_write win [LF]) = text_read stored @ [LF]"
    using text_read_closed [of stored win] by auto
  then show ?thesis by blast
qed

lemma text_read_after_append:
  "text_read (stored @ text_write win ([LF] @ entry @ [LF])) =
     text_read (stored @ text_write win [LF]) @ text_read (text_write win (entry @ [LF]))"
proof (cases win)
  case True
  have "text_read (stored @ CR # LF # text_write True (entry @ [LF])) =
          text_read stored @ LF # text_read (text_write True (entry @ [LF]))"
    by (rule text_read_CRLF)
  moreover have "text_read (stored @ CR # LF # []) = text_read stored @ [LF]"
    using text_read_CRLF [of stored "[]"] by simp
  moreover have "text_write True ([LF] @ entry @ [LF]) = CR # LF # text_write True (entry @ [LF])"
    by (simp add: text_write_def)
  ultimately show ?thesis
    using True by (simp add: text_write_LF)
next
  case False
  then show ?thesis
    using text_read_append_LF [of stored "entry @ [LF]"] by (simp add: text_write_def)
qed

text \<open>The lines of the file after \<open>add_to_hosts\<close> has appended to it.\<close>

lemma lines_after_append:
  "py_lines (text_read (stored @ text_write win ([LF] @ entry @ [LF]))) =
     py_lines (text_read (stored @ text_write win [LF])) @
     py_lines (text_read (text_write win (entry @ [LF])))"
proof -
  obtain u where u: "text_read (stored @ text_write win [LF]) = u @ [LF]"
    using text_read_closed_ends_LF by blast
  show ?thesis
    using py_lines_append_LF [of u "text_read (text_write win (entry @ [LF]))"] u
      text_read_after_append [of stored win entry]
    by simp
qed

lemma lines_of_entry:
  assumes "LF \<notin> set entry" and "CR \<notin> set entry"
  shows "py_lines (text_read (text_write win (entry @ [LF]))) = [entry @ [LF]]"
proof -
  from assms(2) have "CR \<notin> set (entry @ [LF])" by simp
  then have "text_read (text_write win (entry @ [LF])) = entry @ [LF]"
    by (rule text_read_write)
  with assms(1) show ?thesis by (simp add: py_lines_single)
qed

lemma py_lines_blank: "t \<noteq> [] \<Longrightarrow> last t = LF \<Longrightarrow> py_lines (t @ [LF]) = py_lines t @ [[LF]]"
proof -
  assume "t \<noteq> []" and "last t = LF"
  then obtain u where u: "t = u @ [LF]"
    by (metis append_butlast_last_id)
  show ?thesis
    using py_lines_append_LF [of u "[LF]"] u by simp
qed

lemma lines_first_in_empty_file: "py_lines (text_read ([] @ text_write win [LF])) = [[LF]]"
  by (simp add: text_write_LF)

lemma lines_blank_after_newline:
  assumes "stored \<noteq> []" and "last stored = LF"
  shows "py_lines (text_read (stored @ text_write win [LF])) = py_lines (text_read stored) @ [[LF]]"
proof -
  have cr: "last stored \<noteq> CR"
    using assms(2) by simp
  then have t: "text_read (stored @ text_write win [LF]) = text_read stored @ [LF]"
    by (simp add: text_read_closed)
  have "text_read stored \<noteq> []" and "last (text_read stored) = LF"
    using last_text_read [OF assms(1) cr] assms(2) by simp_all
  then show ?thesis
    unfolding t by (rule py_lines_blank)
qed

lemma lines_closed_last_line:
  assumes "stored \<noteq> []" and "last stored \<noteq> LF" and "last stored \<noteq> CR"
  shows "py_lines (text_read (stored @ text_write win [LF])) =
           butlast (py_lines (text_read stored)) @ [last (py_lines (text_read stored)) @ [LF]]"
proof -
  have "text_read (stored @ text_write win [LF]) = text_read stored @ [LF]"
    using assms(3) by (simp add: text_read_closed)
  moreover have "text_read stored \<noteq> []" and "last (text_read stored) \<noteq> LF"
    using last_text_read [OF assms(1,3)] assms(2) by simp_all
  ultimately show ?thesis
    by (simp add: py_lines_snoc_LF)
qed

lemma lines_after_CR:
  assumes "stored \<noteq> []" and "last stored = CR"
  shows "py_lines (text_read (stored @ text_write win [LF])) =
           (if win then py_lines (text_read stored) @ [[LF]] else py_lines (text_read stored))"
proof (cases win)
  case False
  with assms show ?thesis by (simp add: text_read_closed)
next
  case True
  from assms obtain s where s: "stored = s @ [CR]"
    by (metis append_butlast_last_id)
  have t: "text_read (stored @ text_write win [LF]) = text_read stored @ [LF]"
    using True by (simp add: text_read_closed)
  have "text_read stored \<noteq> []" and "last (text_read stored) = LF"
    using s by (simp_all add: text_read_ends_CR)
  then have "py_lines (text_read stored @ [LF]) = py_lines (text_read stored) @ [[LF]]"
    by (rule py_lines_blank)
  with True t show ?thesis by simp
qed

lemma py_lines_one: "l \<noteq> [] \<Longrightarrow> LF \<notin> set (butlast l) \<Longrightarrow> py_lines l = [l]"
proof (induction l)
  case Nil
  then show ?case by simp
next
  case (Cons c l)
  then show ?case by (cases "l = []") auto
qed

lemma py_lines_shape:
  "(\<forall>l \<in> set (py_lines t). l \<noteq> [] \<and> LF \<notin> set (butlast l)) \<and>
   (\<forall>l \<in> set (butlast (py_lines t)). last l = LF)"
proof (induction t)
  case Nil
  show ?case by simp
next
  case (Cons c t)
  show ?case
  proof (cases "c = LF")
    case True
    with Cons show ?thesis by auto
  next
    case False
    show ?thesis
    proof (cases "py_lines t")
      case Nil
      with False show ?thesis by simp
    next
      case (Cons l ls)
      with False Cons.IH show ?thesis by (cases "ls = []") auto
    qed
  qed
qed

text \<open>Lines that are put together and cut again are the same lines, also when some of
  the lines of a text were left out.\<close>

lemma py_lines_concat:
  assumes "\<forall>l \<in> set ls. l \<noteq> [] \<and> LF \<notin> set (butlast l)"
    and "\<forall>l \<in> set (butlast ls). last l = LF"
  shows "py_lines (concat ls) = ls"
  using assms
proof (induction ls)
  case Nil
  show ?case by simp
next
  case (Cons l ls)
  show ?case
  proof (cases "ls = []")
    case True
    with Cons.prems show ?thesis by (simp add: py_lines_one)
  next
    case False
    with Cons.prems have l: "l \<noteq> []" "last l = LF" "LF \<notin> set (butlast l)"
      by simp_all
    then have split: "l = butlast l @ [LF]"
      by (metis append_butlast_last_id)
    from False Cons have IH: "py_lines (concat ls) = ls"
      by simp
    have "py_lines (concat (l # ls)) = py_lines (butlast l @ LF # concat ls)"
      using split by (metis append_Cons append_Nil append_assoc concat.simps(2))
    also have "\<dots> = py_lines (butlast l @ [LF]) @ py_lines (concat ls)"
      by (rule py_lines_append_LF)
    also have "\<dots> = l # ls"
      using py_lines_single [OF l(3)] split IH by simp
    finally show ?thesis .
  qed
qed

lemma butlast_filter_subset: "set (butlast (filter Q ls)) \<subseteq> set (butlast ls)"
proof (induction ls)
  case Nil
  show ?case by simp
next
  case (Cons a ls)
  show ?case
  proof (cases "filter Q ls = []")
    case True
    then show ?thesis by simp
  next
    case False
    then have "ls \<noteq> []" by auto
    with False Cons show ?thesis by auto
  qed
qed

lemma py_lines_filter: "py_lines (concat (filter Q (py_lines t))) = filter Q (py_lines t)"
proof (rule py_lines_concat)
  show "\<forall>l \<in> set (filter Q (py_lines t)). l \<noteq> [] \<and> LF \<notin> set (butlast l)"
    using py_lines_shape [of t] by simp
  show "\<forall>l \<in> set (butlast (filter Q (py_lines t))). last l = LF"
    using py_lines_shape [of t] butlast_filter_subset [of Q "py_lines t"] by blast
qed

lemma CR_notin_text_read: "CR \<notin> set (text_read s)"
  using set_text_read
proof (induction s rule: text_read.induct)
  case 1
  show ?case by simp
next
  case (2 c cs)
  show ?case
  proof (cases "c = CR")
    case False
    with 2 show ?thesis by simp
  next
    case True
    show ?thesis
    proof (cases cs)
      case Nil
      with True show ?thesis by simp
    next
      case (Cons d ds)
      show ?thesis
      proof (cases "d = LF")
        case True
        with \<open>c = CR\<close> Cons 2(1) set_text_read show ?thesis by simp
      next
        case False
        with \<open>c = CR\<close> Cons 2(2) set_text_read show ?thesis by simp
      qed
    qed
  qed
qed

lemma text_read_written_lines:
  "text_read (text_write win (concat (filter Q (py_lines (text_read s))))) =
     concat (filter Q (py_lines (text_read s)))"
proof (rule text_read_write)
  have "set (concat (filter Q (py_lines (text_read s)))) \<subseteq> set (concat (py_lines (text_read s)))"
    by auto
  then show "CR \<notin> set (concat (filter Q (py_lines (text_read s))))"
    using CR_notin_text_read [of s] by (auto simp: concat_py_lines)
qed

section \<open>Facts about the hosts functions\<close>

lemma scan_lines_iff: "scan_lines e ls \<longleftrightarrow> (\<exists>l \<in> set ls. line_matches e l)"
  by (induction ls) auto

lemma remove_loop_eq:
  "remove_loop e ls (found, written) =
     (found \<or> (\<exists>l \<in> set ls. line_matches e l),
      written @ concat (filter (\<lambda>l. \<not> line_matches e l) ls))"
  by (induction ls arbitrary: found written) auto

lemma get_hosts_file_path_supported:
  "system w \<noteq> OtherOS \<Longrightarrow> \<exists>p. get_hosts_file_path w = (Some p, w)"
  by (cases "system w") (auto simp: get_hosts_file_path_def)

lemma is_entry_in_hosts_readable:
  assumes "system w \<noteq> OtherOS" and "hosts_file w = Some stored" and "hosts_readable w"
  shows "is_entry_in_hosts entry w = (scan_lines entry (py_lines (text_read stored)), w)"
proof -
  from assms(1) obtain p where "get_hosts_file_path w = (Some p, w)"
    using get_hosts_file_path_supported by blast
  with assms(2,3) show ?thesis
    by (simp add: is_entry_in_hosts_def)
qed

lemma say_fields:
  "system (say m w) = system w" "system_root (say m w) = system_root w"
  "hosts_file (say m w) = hosts_file w"
  "hosts_readable (say m w) = hosts_readable w" "hosts_writable (say m w) = hosts_writable w"
  "trace (say m w) = trace w @ [Print m]"
  by (simp_all add: say_def emit_def)

lemma flush_dns_fields:
  "system (flush_dns m w) = system w" "system_root (flush_dns m w) = system_root w"
  "hosts_file (flush_dns m w) = hosts_file w"
  "hosts_readable (flush_dns m w) = hosts_readable w"
  "hosts_writable (flush_dns m w) = hosts_writable w"
  by (simp_all add: flush_dns_def Let_def say_def emit_def)


lemma add_to_hosts_readable:
  assumes "system w \<noteq> OtherOS" and "hosts_file w = Some stored" and "hosts_readable w"
  shows "add_to_hosts entry w =
     (if scan_lines entry (py_lines (text_read stored))
      then (True, say (EntryAlreadyExists entry) w)
      else if \<not> hosts_writable w then (False, say PrivilegeHint (say AddFailed w))
      else (True, flush_dns DnsFlushNote
              (say (EntryAdded entry (the (fst (get_hosts_file_path w))))
                 (w\<lparr>hosts_file := Some (stored @
                      text_write (system w = Windows) ([LF] @ entry @ [LF]))\<rparr>))))"
proof -
  from assms(1) obtain p where p: "get_hosts_file_path w = (Some p, w)"
    using get_hosts_file_path_supported by blast
  show ?thesis
    using assms(2) by (simp add: add_to_hosts_def p is_entry_in_hosts_readable [OF assms]
        stored_text_def Let_def)
qed

lemma remove_from_hosts_readable:
  assumes "system w \<noteq> OtherOS" and "hosts_file w = Some stored" and "hosts_readable w"
  shows "remove_from_hosts entry w =
     (if \<not> scan_lines entry (py_lines (text_read stored))
      then (True, say (EntryNotFoundNoRemoval entry) w)
      else if \<not> hosts_writable w then remove_failed w
      else (True, flush_dns DnsFlushNoteShort
              (say (EntryRemoved entry (the (fst (get_hosts_file_path w))))
                 (w\<lparr>hosts_file := Some (text_write (system w = Windows)
                      (concat (filter (\<lambda>line. \<not> line_matches entry line)
                         (py_lines (text_read stored)))))\<rparr>))))"
proof -
  from assms(1) obtain p where p: "get_hosts_file_path w = (Some p, w)"
    using get_hosts_file_path_supported by blast
  show ?thesis
    using assms(2,3) by (simp add: remove_from_hosts_def p is_entry_in_hosts_readable [OF assms]
        remove_loop_eq scan_lines_iff Let_def)
qed


lemma line_matches_active: "line_matches entry line \<longleftrightarrow> active_line entry line"
  by (simp add: line_matches_def active_line_def py_in_sublist hash_after_strip)

lemma trace_flush_dns:
  "trace (flush_dns m w) = trace w @
     (if system w \<in> {Linux, Darwin} then [Print m]
      else if system w = Windows
      then [Print DnsFlushAttempt, FlushDns, Print (if flushdns_ok w then DnsFlushed else DnsFlushFailed)]
      else [])"
  by (simp add: flush_dns_def Let_def say_def emit_def)







section \<open>Facts about stopping the server\<close>

lemma actions_emit: "actions (emit e w) = actions w @ (if is_action e then [e] else [])"
  by (simp add: actions_def emit_def)

lemma actions_say: "actions (say m w) = actions w"
  by (simp add: say_def actions_emit)

lemma actions_remove_pid_file: "actions (remove_pid_file w) = actions w"
  by (simp add: remove_pid_file_def say_def emit_def actions_def)

lemma actions_stop_failed: "actions (snd (stop_failed pid w)) = actions w"
  by (simp add: stop_failed_def actions_say)

lemma actions_terminate:
  "actions (snd (terminate os pid w)) = actions w @
     (if on_sigterm os \<noteq> KillOk then [Kill pid SIGTERM]
      else if on_probe os \<noteq> KillOk then [Kill pid SIGTERM, Sleep 2, Kill pid SIG0]
      else [Kill pid SIGTERM, Sleep 2, Kill pid SIG0, Kill pid SIGKILL])"
  by (simp add: terminate_def Let_def actions_say actions_emit actions_stop_failed
      split: kill_result.splits)

lemma actions_stop:
  "actions (snd (stop_php_server os w)) = actions w @
     (case pid_file w of
        None \<Rightarrow> []
      | Some stored \<Rightarrow>
          if \<not> pid_readable w then []
          else (case py_int (int_max_str_digits w) (py_strip (text_read stored)) of
                  None \<Rightarrow> []
                | Some pid \<Rightarrow>
                    if on_sigterm os \<noteq> KillOk then [Kill pid SIGTERM]
                    else if on_probe os \<noteq> KillOk then [Kill pid SIGTERM, Sleep 2, Kill pid SIG0]
                    else [Kill pid SIGTERM, Sleep 2, Kill pid SIG0, Kill pid SIGKILL]))"
proof -
  have t: "actions (snd (case terminate os pid v of (success, w1) \<Rightarrow>
              if success then (True, remove_pid_file w1) else (False, w1))) =
           actions (snd (terminate os pid v))" for pid v
    by (cases "terminate os pid v") (simp add: actions_remove_pid_file)
  show ?thesis
    by (simp add: stop_php_server_def actions_say t actions_terminate
        split: option.splits)
qed

lemma stop_actions_eq:
  "stop_actions os w =
     (case pid_file w of
        None \<Rightarrow> []
      | Some stored \<Rightarrow>
          if \<not> pid_readable w then []
          else (case py_int (int_max_str_digits w) (py_strip (text_read stored)) of
                  None \<Rightarrow> []
                | Some pid \<Rightarrow>
                    if on_sigterm os \<noteq> KillOk then [Kill pid SIGTERM]
                    else if on_probe os \<noteq> KillOk then [Kill pid SIGTERM, Sleep 2, Kill pid SIG0]
                    else [Kill pid SIGTERM, Sleep 2, Kill pid SIG0, Kill pid SIGKILL]))"
  by (simp add: stop_actions_def actions_stop)

section \<open>The claims\<close>

text \<open>
  C1, amended. Whenever the PID file does not exist, \<open>stop_php_server\<close> returns
  \<open>False\<close>: it prints that the PID file was not found, sends no signal and changes
  nothing else. This holds in particular for a second call after a call that deleted the
  PID file.
\<close>

theorem stop_without_marker:
  assumes "pid_file w = None"
  shows "fst (stop_php_server os w) = False \<and>
         snd (stop_php_server os w) = say PidFileNotFound w \<and>
         stop_actions os w = [] \<and>
         pid_file (snd (stop_php_server os w)) = None"
  using assms by (simp add: stop_php_server_def stop_actions_eq say_def emit_def)

theorem stop_without_marker_witness:
  "pid_file (snd (stop_php_server graceful_replies (example_world None (Some ''4242'')))) = None \<and>
   fst (stop_php_server escalating_replies
          (snd (stop_php_server graceful_replies (example_world None (Some ''4242''))))) = False \<and>
   stop_actions escalating_replies
     (snd (stop_php_server graceful_replies (example_world None (Some ''4242'')))) = []"
proof -
  let ?w = "snd (stop_php_server graceful_replies (example_world None (Some ''4242'')))"
  have none: "pid_file ?w = None"
    by code_simp
  from stop_without_marker [OF none, of escalating_replies] none show ?thesis
    by simp
qed

text \<open>
  C1 as stated fails: a first call stops the server and deletes the PID file, and the second
  call right after it returns \<open>False\<close>, not success.
\<close>

theorem stop_twice_counterexample:
  "fst (stop_php_server graceful_replies (example_world None (Some ''4242''))) \<and>
   pid_file (snd (stop_php_server graceful_replies (example_world None (Some ''4242'')))) = None \<and>
   \<not> fst (stop_php_server graceful_replies
            (snd (stop_php_server graceful_replies (example_world None (Some ''4242'')))))"
  by code_simp

text \<open>
  C2, amended. On a supported platform, for a hosts file that can be read and written,
  \<open>remove_from_hosts\<close> removes exactly the active lines for the entry: the lines that
  contain the entry as a substring (lines of other entries that merely contain it too) and
  are not commented out. When there is none, the file is left as it is. When there is one,
  the file is rewritten as the other lines of the text read, in their order, with the line
  ends written in the form of the platform (LF, and CR LF on Windows). So the lines of the
  file afterwards are the lines before that are not active lines for the entry, and the
  lines kept are stored byte for byte as they were when the file had its line ends in the
  form of the platform.
\<close>

theorem remove_from_hosts_frame:
  assumes "system w \<noteq> OtherOS" and "hosts_file w = Some stored"
    and "hosts_readable w" and "hosts_writable w"
  shows "fst (remove_from_hosts entry w) \<and>
         hosts_file (snd (remove_from_hosts entry w)) =
           Some (if \<exists>line \<in> set (py_lines (text_read stored)). active_line entry line
                 then text_write (system w = Windows)
                        (concat (filter (\<lambda>line. \<not> active_line entry line)
                           (py_lines (text_read stored))))
                 else stored) \<and>
         py_lines (text_read (the (hosts_file (snd (remove_from_hosts entry w))))) =
           filter (\<lambda>line. \<not> active_line entry line) (py_lines (text_read stored)) \<and>
         (\<forall>t. CR \<notin> set t \<and> stored = text_write (system w = Windows) t \<longrightarrow>
            hosts_file (snd (remove_from_hosts entry w)) =
              Some (text_write (system w = Windows)
                      (concat (filter (\<lambda>line. \<not> active_line entry line) (py_lines t)))))"
proof -
  let ?win = "system w = Windows"
  let ?lines = "py_lines (text_read stored)"
  let ?kept = "filter (\<lambda>line. \<not> active_line entry line) ?lines"
  let ?new = "if \<exists>line \<in> set ?lines. active_line entry line
              then text_write ?win (concat ?kept) else stored"
  have ret: "fst (remove_from_hosts entry w)"
    using assms(4)
    by (simp add: remove_from_hosts_readable [OF assms(1,2,3)] remove_failed_def)
  have new: "hosts_file (snd (remove_from_hosts entry w)) = Some ?new"
    using assms(2,4)
    by (simp add: remove_from_hosts_readable [OF assms(1,2,3)] scan_lines_iff
        line_matches_active say_fields flush_dns_fields)
  have lines: "py_lines (text_read ?new) = ?kept"
  proof (cases "\<exists>line \<in> set ?lines. active_line entry line")
    case False
    then have "?kept = ?lines"
      by (simp add: filter_id_conv)
    with False show ?thesis by simp
  next
    case True
    have "py_lines (text_read (text_write ?win (concat ?kept))) = ?kept"
      by (simp only: text_read_written_lines py_lines_filter)
    with True show ?thesis by simp
  qed
  have native: "hosts_file (snd (remove_from_hosts entry w)) =
      Some (text_write ?win (concat (filter (\<lambda>line. \<not> active_line entry line) (py_lines t))))"
    if t: "CR \<notin> set t \<and> stored = text_write ?win t" for t
  proof -
    from t have rd: "text_read stored = t"
      by (simp add: text_read_write)
    show ?thesis
    proof (cases "\<exists>line \<in> set (py_lines t). active_line entry line")
      case True
      with new rd show ?thesis by simp
    next
      case False
      then have "filter (\<lambda>line. \<not> active_line entry line) (py_lines t) = py_lines t"
        by (simp add: filter_id_conv)
      with False new rd t show ?thesis
        by (simp add: concat_py_lines)
    qed
  qed
  from ret new lines native show ?thesis
    by simp
qed

theorem remove_from_hosts_frame_witness:
  "system (example_world (Some three_line_hosts) None) \<noteq> OtherOS \<and>
   hosts_file (example_world (Some three_line_hosts) None) = Some three_line_hosts \<and>
   hosts_readable (example_world (Some three_line_hosts) None) \<and>
   hosts_writable (example_world (Some three_line_hosts) None) \<and>
   CR \<notin> set three_line_hosts \<and>
   three_line_hosts =
     text_write (system (example_world (Some three_line_hosts) None) = Windows) three_line_hosts \<and>
   fst (remove_from_hosts ''e'' (example_world (Some three_line_hosts) None)) \<and>
   hosts_file (snd (remove_from_hosts ''e'' (example_world (Some three_line_hosts) None))) =
     Some (''# e'' @ [LF] @ ''z'' @ [LF]) \<and>
   filter (\<lambda>line. \<not> active_line ''e'' line) (py_lines (text_read three_line_hosts)) =
     [''# e'' @ [LF], ''z'' @ [LF]]"
proof -
  let ?w = "example_world (Some three_line_hosts) None"
  have sys: "system ?w \<noteq> OtherOS" and st: "hosts_file ?w = Some three_line_hosts"
    and rd: "hosts_readable ?w" and wr: "hosts_writable ?w"
    and posix: "(system ?w = Windows) = False"
    by (simp_all add: example_world_def)
  have nocr: "CR \<notin> set three_line_hosts"
    by code_simp
  have same: "three_line_hosts = text_write (system ?w = Windows) three_line_hosts"
    by (simp add: posix text_write_def)
  have kept: "filter (\<lambda>line. \<not> active_line ''e'' line) (py_lines (text_read three_line_hosts)) =
      [''# e'' @ [LF], ''z'' @ [LF]]"
    by code_simp
  have some: "\<exists>line \<in> set (py_lines (text_read three_line_hosts)). active_line ''e'' line"
    by code_simp
  have written: "text_write (system ?w = Windows) (''# e'' @ [LF] @ ''z'' @ [LF]) =
      ''# e'' @ [LF] @ ''z'' @ [LF]"
    by (simp add: posix text_write_def)
  from remove_from_hosts_frame [OF sys st rd wr, of "''e''"] kept some written
  have "fst (remove_from_hosts ''e'' ?w) \<and>
        hosts_file (snd (remove_from_hosts ''e'' ?w)) = Some (''# e'' @ [LF] @ ''z'' @ [LF])"
    by simp
  with sys st rd wr nocr same kept show ?thesis
    by blast
qed

text \<open>
  C2 as stated fails in two ways. The line of \<open>albert.apple.com.example.org\<close> does not
  have the fields of the entry \<open>127.0.0.1 albert.apple.com\<close>, it only contains it, and
  \<open>remove_from_hosts\<close> removes it. And a line that is kept is not always kept byte for
  byte: on Linux the comment line that ended with CR LF is written back with LF, and on
  Windows the comment line that ended with LF is written back with CR LF.
\<close>

theorem remove_substring_counterexample:
  "\<not> spec_structural_match ''127.0.0.1 albert.apple.com''
       (''127.0.0.1 albert.apple.com.example.org'' @ [LF]) \<and>
   hosts_file (snd (remove_from_hosts ''127.0.0.1 albert.apple.com''
      (example_world (Some (''# local'' @ [LF] @ ''127.0.0.1 albert.apple.com.example.org'' @ [LF]))
         None))) =
     Some (''# local'' @ [LF]) \<and>
   hosts_file (snd (remove_from_hosts ''127.0.0.1 albert.apple.com''
      (example_world (Some (''# local'' @ [CR, LF] @ ''127.0.0.1 albert.apple.com'' @ [CR, LF]))
         None))) =
     Some (''# local'' @ [LF]) \<and>
   hosts_file (snd (remove_from_hosts ''127.0.0.1 albert.apple.com''
      ((example_world (Some (''# local'' @ [LF] @ ''127.0.0.1 albert.apple.com'' @ [LF]))
         None)\<lparr>system := Windows\<rparr>))) =
     Some (''# local'' @ [CR, LF])"
  by code_simp

text \<open>
  C3. On a supported platform, for every stored hosts file that can be read and every
  entry, \<open>is_entry_in_hosts\<close> returns true if and only if some line of the file contains
  the entry as a substring and that line does not start with \<open>#\<close> once its leading
  whitespace is trimmed.
\<close>

theorem is_entry_in_hosts_iff:
  assumes "system w \<noteq> OtherOS" and "hosts_file w = Some stored" and "hosts_readable w"
  shows "fst (is_entry_in_hosts entry w) \<longleftrightarrow>
           (\<exists>line \<in> set (py_lines (text_read stored)).
              (\<exists>before after. line = before @ entry @ after) \<and>
              \<not> py_startswith (py_lstrip line) ''#'')"
  by (simp add: is_entry_in_hosts_readable [OF assms] scan_lines_iff line_matches_def
      py_in_iff hash_after_strip)

theorem is_entry_in_hosts_iff_witness:
  "system (example_world (Some (''# b'' @ [LF] @ ''a b c'' @ [LF])) None) \<noteq> OtherOS \<and>
   hosts_readable (example_world (Some (''# b'' @ [LF] @ ''a b c'' @ [LF])) None) \<and>
   fst (is_entry_in_hosts ''b'' (example_world (Some (''# b'' @ [LF] @ ''a b c'' @ [LF])) None)) \<and>
   (\<exists>line \<in> set (py_lines (text_read (''# b'' @ [LF] @ ''a b c'' @ [LF]))).
      (\<exists>before after. line = before @ ''b'' @ after) \<and>
      \<not> py_startswith (py_lstrip line) ''#'')"
proof -
  let ?w = "example_world (Some (''# b'' @ [LF] @ ''a b c'' @ [LF])) None"
  have sys: "system ?w \<noteq> OtherOS" and st: "hosts_file ?w = Some (''# b'' @ [LF] @ ''a b c'' @ [LF])"
    and rd: "hosts_readable ?w"
    by (simp_all add: example_world_def)
  have present: "fst (is_entry_in_hosts ''b'' ?w)"
    by code_simp
  with is_entry_in_hosts_iff [OF sys st rd, of "''b''"] sys rd show ?thesis
    by blast
qed

text \<open>
  C4. In every call of \<open>stop_php_server\<close> the actions are a prefix of: \<open>SIGTERM\<close>, a
  sleep of 2 seconds, the probe with signal 0, \<open>SIGKILL\<close>. So \<open>SIGKILL\<close> is sent at most
  once, and only after \<open>SIGTERM\<close> was sent without error, 2 seconds were slept and the
  probe found the process alive.
\<close>

theorem sigkill_only_after_escalation:
  "actions (snd (stop_php_server os w)) = actions w @ stop_actions os w \<and>
   length (filter is_sigkill (stop_actions os w)) \<le> 1 \<and>
   (\<forall>e \<in> set (stop_actions os w). is_sigkill e \<longrightarrow>
      (\<exists>pid. stop_actions os w = [Kill pid SIGTERM, Sleep 2, Kill pid SIG0, Kill pid SIGKILL]) \<and>
      on_sigterm os = KillOk \<and> on_probe os = KillOk)"
proof (intro conjI)
  show "actions (snd (stop_php_server os w)) = actions w @ stop_actions os w"
    by (simp add: stop_actions_def actions_stop)
  show "length (filter is_sigkill (stop_actions os w)) \<le> 1"
    by (simp add: stop_actions_eq split: option.splits)
  show "\<forall>e \<in> set (stop_actions os w). is_sigkill e \<longrightarrow>
      (\<exists>pid. stop_actions os w = [Kill pid SIGTERM, Sleep 2, Kill pid SIG0, Kill pid SIGKILL]) \<and>
      on_sigterm os = KillOk \<and> on_probe os = KillOk"
    by (auto simp: stop_actions_eq split: option.splits if_splits)
qed

theorem sigkill_only_after_escalation_witness:
  "stop_actions escalating_replies (example_world None (Some ''4242'')) =
     [Kill 4242 SIGTERM, Sleep 2, Kill 4242 SIG0, Kill 4242 SIGKILL] \<and>
   is_sigkill (Kill 4242 SIGKILL) \<and>
   on_sigterm escalating_replies = KillOk \<and> on_probe escalating_replies = KillOk \<and>
   length (filter is_sigkill (stop_actions escalating_replies (example_world None (Some ''4242'')))) \<le> 1"
proof -
  let ?w = "example_world None (Some ''4242'')"
  have acts: "stop_actions escalating_replies ?w =
      [Kill 4242 SIGTERM, Sleep 2, Kill 4242 SIG0, Kill 4242 SIGKILL]"
    by code_simp
  then have "Kill 4242 SIGKILL \<in> set (stop_actions escalating_replies ?w)"
    by simp
  with sigkill_only_after_escalation [of escalating_replies ?w] acts show ?thesis
    by auto
qed

text \<open>
  C5. When the PID file exists but cannot be read, or its text is no integer for
  \<open>int\<close>, \<open>stop_php_server\<close> returns \<open>False\<close> after printing the read error; it
  sends no signal and the PID file stays as it was.
\<close>

theorem stop_corrupt_marker:
  assumes "pid_file w = Some stored"
    and "\<not> pid_readable w \<or>
         py_int (int_max_str_digits w) (py_strip (text_read stored)) = None"
  shows "fst (stop_php_server os w) = False \<and>
         snd (stop_php_server os w) = say PidReadError w \<and>
         pid_file (snd (stop_php_server os w)) = Some stored \<and>
         stop_actions os w = []"
  using assms by (auto simp: stop_php_server_def stop_actions_eq say_def emit_def)

theorem stop_corrupt_marker_witness:
  "pid_file (example_world None (Some ''not a pid'')) = Some ''not a pid'' \<and>
   py_int 4300 (py_strip (text_read ''not a pid'')) = None \<and>
   fst (stop_php_server escalating_replies (example_world None (Some ''not a pid''))) = False \<and>
   pid_file (snd (stop_php_server escalating_replies (example_world None (Some ''not a pid'')))) =
     Some ''not a pid'' \<and>
   trace (snd (stop_php_server escalating_replies (example_world None (Some ''not a pid'')))) =
     [Print PidReadError]"
proof -
  let ?w = "example_world None (Some ''not a pid'')"
  have st: "pid_file ?w = Some ''not a pid''" and lim: "int_max_str_digits ?w = 4300"
    by (simp_all add: example_world_def)
  have bad: "py_int 4300 (py_strip (text_read ''not a pid'')) = None"
    by code_simp
  then have "\<not> pid_readable ?w \<or>
      py_int (int_max_str_digits ?w) (py_strip (text_read ''not a pid'')) = None"
    by (simp add: lim)
  from stop_corrupt_marker [OF st this, of escalating_replies] st bad show ?thesis
    by (simp add: say_def emit_def example_world_def)
qed



text \<open>
  C7. When every line of the hosts file that contains the entry is commented out,
  \<open>remove_from_hosts\<close> returns \<open>True\<close>, prints only that the entry was not found and no
  removal is needed, and leaves the file and everything else as it was. When an active
  line is removed, it prints the message of the removal instead and never that one, so
  the two outcomes are told apart by the message (the value returned is \<open>True\<close> in
  both).
\<close>

theorem remove_only_commented:
  assumes "system w \<noteq> OtherOS" and "hosts_file w = Some stored" and "hosts_readable w"
  shows "((\<forall>line \<in> set (py_lines (text_read stored)).
             sublist entry line \<longrightarrow> py_startswith (py_lstrip line) ''#'') \<longrightarrow>
          remove_from_hosts entry w = (True, say (EntryNotFoundNoRemoval entry) w) \<and>
          hosts_file (snd (remove_from_hosts entry w)) = Some stored \<and>
          trace (snd (remove_from_hosts entry w)) = trace w @ [Print (EntryNotFoundNoRemoval entry)]) \<and>
         ((\<exists>line \<in> set (py_lines (text_read stored)). active_line entry line) \<and>
          hosts_writable w \<longrightarrow>
          fst (remove_from_hosts entry w) \<and>
          (\<exists>rest. trace (snd (remove_from_hosts entry w)) =
                    trace w @ Print (EntryRemoved entry (the (fst (get_hosts_file_path w)))) # rest \<and>
                  Print (EntryNotFoundNoRemoval entry) \<notin> set rest))"
proof (intro conjI impI)
  assume only: "\<forall>line \<in> set (py_lines (text_read stored)).
             sublist entry line \<longrightarrow> py_startswith (py_lstrip line) ''#''"
  then have "\<not> scan_lines entry (py_lines (text_read stored))"
    by (auto simp: scan_lines_iff line_matches_active active_line_def)
  then have r: "remove_from_hosts entry w = (True, say (EntryNotFoundNoRemoval entry) w)"
    by (simp add: remove_from_hosts_readable [OF assms])
  then show "remove_from_hosts entry w = (True, say (EntryNotFoundNoRemoval entry) w)" .
  from r assms(2) show "hosts_file (snd (remove_from_hosts entry w)) = Some stored"
    by (simp add: say_fields)
  from r show "trace (snd (remove_from_hosts entry w)) = trace w @ [Print (EntryNotFoundNoRemoval entry)]"
    by (simp add: say_fields)
next
  assume "(\<exists>line \<in> set (py_lines (text_read stored)). active_line entry line) \<and> hosts_writable w"
  then have found: "scan_lines entry (py_lines (text_read stored))" and wr: "hosts_writable w"
    by (auto simp: scan_lines_iff line_matches_active)
  let ?p = "the (fst (get_hosts_file_path w))"
  let ?kept = "concat (filter (\<lambda>line. \<not> line_matches entry line) (py_lines (text_read stored)))"
  have r: "remove_from_hosts entry w =
      (True, flush_dns DnsFlushNoteShort (say (EntryRemoved entry ?p)
         (w\<lparr>hosts_file := Some (text_write (system w = Windows) ?kept)\<rparr>)))"
    using found wr by (simp add: remove_from_hosts_readable [OF assms])
  then show "fst (remove_from_hosts entry w)"
    by simp
  show "\<exists>rest. trace (snd (remove_from_hosts entry w)) = trace w @ Print (EntryRemoved entry ?p) # rest \<and>
          Print (EntryNotFoundNoRemoval entry) \<notin> set rest"
    by (simp add: r trace_flush_dns say_fields)
qed

theorem remove_only_commented_witness:
  "system (example_world (Some scenario_hosts) None) \<noteq> OtherOS \<and>
   hosts_readable (example_world (Some scenario_hosts) None) \<and>
   (\<exists>line \<in> set (py_lines (text_read scenario_hosts)). sublist ''127.0.0.1 albert.apple.com'' line) \<and>
   fst (remove_from_hosts ''127.0.0.1 albert.apple.com'' (example_world (Some scenario_hosts) None)) \<and>
   hosts_file (snd (remove_from_hosts ''127.0.0.1 albert.apple.com''
      (example_world (Some scenario_hosts) None))) = Some scenario_hosts \<and>
   trace (snd (remove_from_hosts ''127.0.0.1 albert.apple.com''
      (example_world (Some scenario_hosts) None))) =
     [Print (EntryNotFoundNoRemoval ''127.0.0.1 albert.apple.com'')]"
proof -
  let ?w = "example_world (Some scenario_hosts) None"
  have sys: "system ?w \<noteq> OtherOS" and st: "hosts_file ?w = Some scenario_hosts"
    and rd: "hosts_readable ?w" and tr: "trace ?w = []"
    by (simp_all add: example_world_def)
  have only: "\<forall>line \<in> set (py_lines (text_read scenario_hosts)).
      sublist ''127.0.0.1 albert.apple.com'' line \<longrightarrow> py_startswith (py_lstrip line) ''#''"
    by code_simp
  have occurs: "\<exists>line \<in> set (py_lines (text_read scenario_hosts)).
      sublist ''127.0.0.1 albert.apple.com'' line"
    by code_simp
  from remove_only_commented [OF sys st rd, of "''127.0.0.1 albert.apple.com''"] only
  have "remove_from_hosts ''127.0.0.1 albert.apple.com'' ?w =
          (True, say (EntryNotFoundNoRemoval ''127.0.0.1 albert.apple.com'') ?w) \<and>
        hosts_file (snd (remove_from_hosts ''127.0.0.1 albert.apple.com'' ?w)) = Some scenario_hosts \<and>
        trace (snd (remove_from_hosts ''127.0.0.1 albert.apple.com'' ?w)) =
          trace ?w @ [Print (EntryNotFoundNoRemoval ''127.0.0.1 albert.apple.com'')]"
    by blast
  with sys rd occurs tr st show ?thesis
    by (simp add: say_fields)
qed

text \<open>
  C8, amended. With the hosts file \<open>1.2.3.4 other.host\<close>,
  \<open># 127.0.0.1 albert.apple.com\<close> (two lines, each ended by a newline),
  \<open>is_entry_in_hosts\<close> of \<open>127.0.0.1 albert.apple.com\<close> is false, and \<open>add_to_hosts\<close>
  appends a newline, the entry and a newline to the file, which then has four lines: the
  two old lines unchanged and in order, a blank line, and the entry as the last line.
\<close>

theorem commented_entry_scenario:
  assumes "system w \<noteq> OtherOS" and "hosts_file w = Some scenario_hosts"
    and "hosts_readable w" and "hosts_writable w"
  shows "\<not> fst (is_entry_in_hosts ''127.0.0.1 albert.apple.com'' w) \<and>
         fst (add_to_hosts ''127.0.0.1 albert.apple.com'' w) \<and>
         hosts_file (snd (add_to_hosts ''127.0.0.1 albert.apple.com'' w)) =
           Some (scenario_hosts @
                 text_write (system w = Windows) ([LF] @ ''127.0.0.1 albert.apple.com'' @ [LF])) \<and>
         py_lines (text_read scenario_hosts) =
           [''1.2.3.4 other.host'' @ [LF], ''# 127.0.0.1 albert.apple.com'' @ [LF]] \<and>
         py_lines (text_read (scenario_hosts @
                 text_write (system w = Windows) ([LF] @ ''127.0.0.1 albert.apple.com'' @ [LF]))) =
           [''1.2.3.4 other.host'' @ [LF], ''# 127.0.0.1 albert.apple.com'' @ [LF],
            [LF], ''127.0.0.1 albert.apple.com'' @ [LF]]"
proof -
  let ?win = "system w = Windows"
  have absent: "\<not> scan_lines ''127.0.0.1 albert.apple.com'' (py_lines (text_read scenario_hosts))"
    by code_simp
  have before: "py_lines (text_read scenario_hosts) =
      [''1.2.3.4 other.host'' @ [LF], ''# 127.0.0.1 albert.apple.com'' @ [LF]]"
    by code_simp
  have ne: "scenario_hosts \<noteq> []" and ends: "last scenario_hosts = LF"
    by (simp_all add: scenario_hosts_def)
  have lf: "LF \<notin> set ''127.0.0.1 albert.apple.com''"
    and cr: "CR \<notin> set ''127.0.0.1 albert.apple.com''"
    by simp_all
  have "py_lines (text_read (scenario_hosts @
          text_write ?win ([LF] @ ''127.0.0.1 albert.apple.com'' @ [LF]))) =
        py_lines (text_read scenario_hosts) @ [[LF]] @ [''127.0.0.1 albert.apple.com'' @ [LF]]"
    by (simp only: lines_after_append lines_of_entry [OF lf cr]
        lines_blank_after_newline [OF ne ends] append_assoc)
  with before have after: "py_lines (text_read (scenario_hosts @
          text_write ?win ([LF] @ ''127.0.0.1 albert.apple.com'' @ [LF]))) =
      [''1.2.3.4 other.host'' @ [LF], ''# 127.0.0.1 albert.apple.com'' @ [LF],
       [LF], ''127.0.0.1 albert.apple.com'' @ [LF]]"
    by simp
  have "\<not> fst (is_entry_in_hosts ''127.0.0.1 albert.apple.com'' w)"
    using absent by (simp add: is_entry_in_hosts_readable [OF assms(1,2,3)])
  moreover have "add_to_hosts ''127.0.0.1 albert.apple.com'' w =
      (True, flush_dns DnsFlushNote
              (say (EntryAdded ''127.0.0.1 albert.apple.com'' (the (fst (get_hosts_file_path w))))
                 (w\<lparr>hosts_file := Some (scenario_hosts @
                      text_write ?win ([LF] @ ''127.0.0.1 albert.apple.com'' @ [LF]))\<rparr>)))"
    using absent assms(4) by (simp add: add_to_hosts_readable [OF assms(1,2,3)])
  then have "fst (add_to_hosts ''127.0.0.1 albert.apple.com'' w)"
    and "hosts_file (snd (add_to_hosts ''127.0.0.1 albert.apple.com'' w)) =
           Some (scenario_hosts @
                 text_write ?win ([LF] @ ''127.0.0.1 albert.apple.com'' @ [LF]))"
    by (simp_all add: flush_dns_fields say_fields)
  ultimately show ?thesis
    using before after by blast
qed

theorem commented_entry_scenario_witness:
  "system (example_world (Some scenario_hosts) None) \<noteq> OtherOS \<and>
   hosts_file (example_world (Some scenario_hosts) None) = Some scenario_hosts \<and>
   hosts_readable (example_world (Some scenario_hosts) None) \<and>
   hosts_writable (example_world (Some scenario_hosts) None) \<and>
   \<not> fst (is_entry_in_hosts ''127.0.0.1 albert.apple.com'' (example_world (Some scenario_hosts) None)) \<and>
   hosts_file (snd (add_to_hosts ''127.0.0.1 albert.apple.com'' (example_world (Some scenario_hosts) None))) =
     Some (scenario_hosts @ [LF] @ ''127.0.0.1 albert.apple.com'' @ [LF])"
proof -
  let ?w = "example_world (Some scenario_hosts) None"
  have sys: "system ?w \<noteq> OtherOS" and st: "hosts_file ?w = Some scenario_hosts"
    and rd: "hosts_readable ?w" and wr: "hosts_writable ?w"
    and posix: "(system ?w = Windows) = False"
    by (simp_all add: example_world_def)
  have written: "text_write (system ?w = Windows) ([LF] @ ''127.0.0.1 albert.apple.com'' @ [LF]) =
      [LF] @ ''127.0.0.1 albert.apple.com'' @ [LF]"
    by (simp add: posix text_write_def)
  from commented_entry_scenario [OF sys st rd wr] written
  have "\<not> fst (is_entry_in_hosts ''127.0.0.1 albert.apple.com'' ?w) \<and>
        hosts_file (snd (add_to_hosts ''127.0.0.1 albert.apple.com'' ?w)) =
          Some (scenario_hosts @ [LF] @ ''127.0.0.1 albert.apple.com'' @ [LF])"
    by simp
  with sys st rd wr show ?thesis
    by blast
qed

text \<open>
  C8 as stated fails: the file has two lines, not three, and after \<open>add_to_hosts\<close> it has
  four, not three or three and the entry: the third is a blank line that was no line of
  the file before.
\<close>

theorem commented_entry_scenario_counterexample:
  "length (py_lines (text_read scenario_hosts)) = 2 \<and>
   [LF] \<notin> set (py_lines (text_read scenario_hosts)) \<and>
   hosts_file (snd (add_to_hosts ''127.0.0.1 albert.apple.com''
      (example_world (Some scenario_hosts) None))) =
     Some (scenario_hosts @ [LF] @ ''127.0.0.1 albert.apple.com'' @ [LF]) \<and>
   length (py_lines (text_read (scenario_hosts @ [LF] @ ''127.0.0.1 albert.apple.com'' @ [LF]))) = 4 \<and>
   py_lines (text_read (scenario_hosts @ [LF] @ ''127.0.0.1 albert.apple.com'' @ [LF])) ! 2 = [LF]"
  by code_simp

text \<open>
  C9. \<open>stop_php_server\<close> strips the text of the PID file before \<open>int\<close>: whitespace
  around an optionally signed run of decimal digits (a trailing newline, spaces) is
  accepted and gives the number written, as long as the digits are no more than the
  interpreter's limit for \<open>int\<close>. Whatever integer \<open>int\<close> returns, a negative one too, is
  the target of the first signal, \<open>SIGTERM\<close>.
\<close>

theorem stop_accepts_python_integers:
  assumes "pid_file w = Some stored" and "pid_readable w"
  shows "(\<forall>pid. py_int (int_max_str_digits w) (py_strip (text_read stored)) = Some pid \<longrightarrow>
            (\<exists>rest. stop_actions os w = Kill pid SIGTERM # rest)) \<and>
         (\<forall>lead sign ds trail.
            stored = lead @ sign @ ds @ trail \<and>
            (\<forall>c \<in> set lead. py_isspace c) \<and> (\<forall>c \<in> set trail. py_isspace c) \<and>
            sign \<in> {[], ''+'', ''-''} \<and> ds \<noteq> [] \<and> (\<forall>c \<in> set ds. is_digit c) \<and>
            (int_max_str_digits w = 0 \<or> length ds \<le> int_max_str_digits w) \<longrightarrow>
            py_int (int_max_str_digits w) (py_strip (text_read stored)) =
              Some (signed_value sign ds) \<and>
            (\<exists>rest. stop_actions os w = Kill (signed_value sign ds) SIGTERM # rest))"
proof -
  have target: "\<exists>rest. stop_actions os w = Kill pid SIGTERM # rest"
    if "py_int (int_max_str_digits w) (py_strip (text_read stored)) = Some pid" for pid
    using that assms by (simp add: stop_actions_eq)
  have parsed: "py_int (int_max_str_digits w) (py_strip (text_read stored)) =
      Some (signed_value sign ds)"
    if "stored = lead @ sign @ ds @ trail \<and>
        (\<forall>c \<in> set lead. py_isspace c) \<and> (\<forall>c \<in> set trail. py_isspace c) \<and>
        sign \<in> {[], ''+'', ''-''} \<and> ds \<noteq> [] \<and> (\<forall>c \<in> set ds. is_digit c) \<and>
        (int_max_str_digits w = 0 \<or> length ds \<le> int_max_str_digits w)"
    for lead sign ds trail
    using that py_int_padded [of lead trail sign ds "int_max_str_digits w"] by blast
  from target parsed show ?thesis
    by blast
qed

theorem stop_accepts_python_integers_witness:
  "pid_file (example_world None (Some (''-15'' @ [LF]))) = Some (''-15'' @ [LF]) \<and>
   pid_readable (example_world None (Some (''-15'' @ [LF]))) \<and>
   int_max_str_digits (example_world None (Some (''-15'' @ [LF]))) = 4300 \<and>
   length ''15'' \<le> (4300::nat) \<and>
   py_int 4300 (py_strip (text_read (''-15'' @ [LF]))) = Some (- 15) \<and>
   stop_actions graceful_replies (example_world None (Some (''-15'' @ [LF]))) =
     [Kill (- 15) SIGTERM, Sleep 2, Kill (- 15) SIG0]"
proof -
  let ?w = "example_world None (Some (''-15'' @ [LF]))"
  have st: "pid_file ?w = Some (''-15'' @ [LF])" and rd: "pid_readable ?w"
    and lim: "int_max_str_digits ?w = 4300"
    by (simp_all add: example_world_def)
  note inst = stop_accepts_python_integers [OF st rd, of graceful_replies]
  have shape: "''-15'' @ [LF] = [] @ ''-'' @ ''15'' @ [LF] \<and>
      (\<forall>c \<in> set []. py_isspace c) \<and> (\<forall>c \<in> set [LF]. py_isspace c) \<and>
      ''-'' \<in> {[], ''+'', ''-''} \<and> ''15'' \<noteq> [] \<and> (\<forall>c \<in> set ''15''. is_digit c) \<and>
      (int_max_str_digits ?w = 0 \<or> length ''15'' \<le> int_max_str_digits ?w)"
    by (simp add: py_isspace_def is_digit_def example_world_def)
  have val: "signed_value ''-'' ''15'' = - 15"
    by code_simp
  from inst shape
  have "py_int (int_max_str_digits ?w) (py_strip (text_read (''-15'' @ [LF]))) =
      Some (signed_value ''-'' ''15'')"
    by blast
  with val lim have parsed: "py_int 4300 (py_strip (text_read (''-15'' @ [LF]))) = Some (- 15)"
    by simp
  with inst lim obtain rest where "stop_actions graceful_replies ?w = Kill (- 15) SIGTERM # rest"
    by auto
  moreover have "stop_actions graceful_replies ?w = [Kill (- 15) SIGTERM, Sleep 2, Kill (- 15) SIG0]"
    using st rd parsed lim by (simp add: stop_actions_eq graceful_replies_def)
  ultimately show ?thesis using st rd lim parsed by simp
qed

text \<open>
  C10. When the entry is not found as an active line of a readable and writable hosts
  file, \<open>add_to_hosts\<close> stores the old characters followed by a newline, the entry and a
  newline, written in the form of the platform (LF, and CR LF on Windows). The old content
  is a prefix of the new. The lines of the new file are the lines of the old content
  closed by the newline, followed by the lines of the entry, which is one line when the
  entry has no line break. Closing the old content adds a blank line when it ended with LF
  or was empty, and only ends its last line when it ended with another character than LF
  or CR. When it ended with a single CR, the LF written on Linux and macOS falls together
  with it and no blank line appears, and on Windows a blank line appears.
\<close>

theorem add_to_hosts_appends:
  assumes "system w \<noteq> OtherOS" and "hosts_file w = Some stored"
    and "hosts_readable w" and "hosts_writable w"
    and "\<not> fst (is_entry_in_hosts entry w)"
  shows "fst (add_to_hosts entry w) \<and>
         hosts_file (snd (add_to_hosts entry w)) =
           Some (stored @ text_write (system w = Windows) ([LF] @ entry @ [LF])) \<and>
         text_write (system w = Windows) ([LF] @ entry @ [LF]) =
           text_write (system w = Windows) [LF] @ text_write (system w = Windows) entry @
           text_write (system w = Windows) [LF] \<and>
         text_write (system w = Windows) [LF] = (if system w = Windows then [CR, LF] else [LF]) \<and>
         (LF \<notin> set entry \<longrightarrow> text_write (system w = Windows) entry = entry) \<and>
         prefix stored (stored @ text_write (system w = Windows) ([LF] @ entry @ [LF])) \<and>
         py_lines (text_read (stored @ text_write (system w = Windows) ([LF] @ entry @ [LF]))) =
           py_lines (text_read (stored @ text_write (system w = Windows) [LF])) @
           py_lines (text_read (text_write (system w = Windows) (entry @ [LF]))) \<and>
         (LF \<notin> set entry \<and> CR \<notin> set entry \<longrightarrow>
            py_lines (text_read (text_write (system w = Windows) (entry @ [LF]))) =
              [entry @ [LF]]) \<and>
         (stored = [] \<longrightarrow>
            py_lines (text_read (stored @ text_write (system w = Windows) [LF])) = [[LF]]) \<and>
         (stored \<noteq> [] \<and> last stored = LF \<longrightarrow>
            py_lines (text_read (stored @ text_write (system w = Windows) [LF])) =
              py_lines (text_read stored) @ [[LF]]) \<and>
         (stored \<noteq> [] \<and> last stored \<noteq> LF \<and> last stored \<noteq> CR \<longrightarrow>
            py_lines (text_read (stored @ text_write (system w = Windows) [LF])) =
              butlast (py_lines (text_read stored)) @ [last (py_lines (text_read stored)) @ [LF]]) \<and>
         (stored \<noteq> [] \<and> last stored = CR \<longrightarrow>
            py_lines (text_read (stored @ text_write (system w = Windows) [LF])) =
              (if system w = Windows then py_lines (text_read stored) @ [[LF]]
               else py_lines (text_read stored)))"
proof -
  let ?win = "system w = Windows"
  from assms(5) have absent: "\<not> scan_lines entry (py_lines (text_read stored))"
    by (simp add: is_entry_in_hosts_readable [OF assms(1,2,3)])
  have added: "add_to_hosts entry w =
      (True, flush_dns DnsFlushNote
              (say (EntryAdded entry (the (fst (get_hosts_file_path w))))
                 (w\<lparr>hosts_file := Some (stored @ text_write ?win ([LF] @ entry @ [LF]))\<rparr>)))"
    using absent assms(4) by (simp add: add_to_hosts_readable [OF assms(1,2,3)])
  have ret: "fst (add_to_hosts entry w)"
    by (simp add: added)
  have new: "hosts_file (snd (add_to_hosts entry w)) =
      Some (stored @ text_write ?win ([LF] @ entry @ [LF]))"
    by (simp add: added flush_dns_fields say_fields)
  have parts: "text_write ?win ([LF] @ entry @ [LF]) =
      text_write ?win [LF] @ text_write ?win entry @ text_write ?win [LF]"
    by (simp only: text_write_append)
  have sep: "text_write ?win [LF] = (if ?win then [CR, LF] else [LF])"
    by (rule text_write_LF)
  have plain: "text_write ?win entry = entry" if "LF \<notin> set entry"
    using that by (rule text_write_plain)
  have empty: "py_lines (text_read (stored @ text_write ?win [LF])) = [[LF]]" if "stored = []"
    using that lines_first_in_empty_file [of ?win] by simp
  from ret new parts sep plain empty show ?thesis
    using lines_after_append [of stored ?win entry] lines_of_entry [of entry ?win]
      lines_blank_after_newline [of stored ?win] lines_closed_last_line [of stored ?win]
      lines_after_CR [of stored ?win]
    by simp
qed

theorem add_to_hosts_appends_witness:
  "system (example_world (Some ''a b'') None) \<noteq> OtherOS \<and>
   hosts_readable (example_world (Some ''a b'') None) \<and>
   hosts_writable (example_world (Some ''a b'') None) \<and>
   \<not> fst (is_entry_in_hosts ''c d'' (example_world (Some ''a b'') None)) \<and>
   fst (add_to_hosts ''c d'' (example_world (Some ''a b'') None)) \<and>
   hosts_file (snd (add_to_hosts ''c d'' (example_world (Some ''a b'') None))) =
     Some (''a b'' @ [LF] @ ''c d'' @ [LF]) \<and>
   py_lines (text_read (''a b'' @ [LF] @ ''c d'' @ [LF])) = [''a b'' @ [LF], ''c d'' @ [LF]]"
proof -
  let ?w = "example_world (Some ''a b'') None"
  have sys: "system ?w \<noteq> OtherOS" and st: "hosts_file ?w = Some ''a b''"
    and rd: "hosts_readable ?w" and wr: "hosts_writable ?w"
    and posix: "(system ?w = Windows) = False"
    by (simp_all add: example_world_def)
  have absent: "\<not> fst (is_entry_in_hosts ''c d'' ?w)"
    by code_simp
  have lines: "py_lines (text_read (''a b'' @ [LF] @ ''c d'' @ [LF])) = [''a b'' @ [LF], ''c d'' @ [LF]]"
    by code_simp
  have written: "text_write (system ?w = Windows) ([LF] @ ''c d'' @ [LF]) = [LF] @ ''c d'' @ [LF]"
    by (simp add: posix text_write_def)
  from add_to_hosts_appends [OF sys st rd wr absent] written
  have "fst (add_to_hosts ''c d'' ?w) \<and>
        hosts_file (snd (add_to_hosts ''c d'' ?w)) = Some (''a b'' @ [LF] @ ''c d'' @ [LF])"
    by simp
  with sys rd wr absent lines show ?thesis
    by blast
qed

end
